theory Spec2Isabelle
  imports Complex_Main "HOL-Library.Sublist" "HOL-Library.Log_Nat"
begin

section \<open>JSON-like values\<close>

text \<open>
  The documents exchanged between agent and client (shared state, tool arguments,
  HTTP response bodies) are JSON values. Objects are association lists, so that the
  order of the keys written by the source is kept.
\<close>

datatype json =
    JNull
  | JBool bool
  | JNum int
  | JStr string
  | JArr "json list"
  | JObj "(string \<times> json) list"

text \<open>Reading a field of an object; a missing field (or a non-object) is \<open>None\<close>.\<close>

fun field :: "json \<Rightarrow> string \<Rightarrow> json option" where
  "field (JObj kvs) k = map_of kvs k"
| "field _ k = None"

section \<open>Approval ledger (AgentStateDisplay)\<close>

text \<open>
  \<^verbatim>\<open>interface PendingAction { id; action_type; description; details? }\<close>
\<close>

record PendingAction =
  pa_id :: string
  action_type :: string
  pa_description :: string
  details :: "(string \<times> json) list option"

text \<open>
  \<^verbatim>\<open>interface AgentState\<close>. The two id lists are read everywhere through
  \<^verbatim>\<open>(prev.approved_action_ids || [])\<close>, so a missing list is part of the model:
  \<open>None\<close> is the absent (undefined or null) field.
\<close>

record AgentState =
  message_count :: int
  last_topic :: string
  pending_actions :: "PendingAction list"
  approved_action_ids :: "string list option"
  rejected_action_ids :: "string list option"
  awaiting_approval :: bool
  is_processing :: bool
  execution_results :: "string list"
  error_message :: "string option"

text \<open>The \<^verbatim>\<open>initialState\<close> given to \<^verbatim>\<open>useCoAgent\<close>.\<close>

definition initialState :: AgentState where
  "initialState =
     \<lparr> message_count = 0, last_topic = '''', pending_actions = [],
       approved_action_ids = Some [], rejected_action_ids = Some [],
       awaiting_approval = False, is_processing = False,
       execution_results = [], error_message = None \<rparr>"

text \<open>\<^verbatim>\<open>xs || []\<close> on an array that may be missing (an array, even empty, is truthy).\<close>

fun or_empty :: "'a list option \<Rightarrow> 'a list" where
  "or_empty None = []"
| "or_empty (Some xs) = xs"

text \<open>
  \<^verbatim>\<open>
  const handleApprove = (actionId) => setState((prev) => ({
    ...prev,
    approved_action_ids: [...(prev.approved_action_ids || []), actionId],
    rejected_action_ids: (prev.rejected_action_ids || []).filter((id) => id !== actionId),
  }));
  \<close>
  The state updater is the function from \<open>prev\<close> to the next state.
\<close>

definition handleApprove :: "string \<Rightarrow> AgentState \<Rightarrow> AgentState" where
  "handleApprove actionId prev =
     prev\<lparr> approved_action_ids := Some (or_empty (approved_action_ids prev) @ [actionId]),
            rejected_action_ids :=
              Some (filter (\<lambda>i. i \<noteq> actionId) (or_empty (rejected_action_ids prev))) \<rparr>"

definition handleReject :: "string \<Rightarrow> AgentState \<Rightarrow> AgentState" where
  "handleReject actionId prev =
     prev\<lparr> rejected_action_ids := Some (or_empty (rejected_action_ids prev) @ [actionId]),
            approved_action_ids :=
              Some (filter (\<lambda>i. i \<noteq> actionId) (or_empty (approved_action_ids prev))) \<rparr>"

text \<open>
  What the component reads back when it renders:
  \<^verbatim>\<open>approvedIds = state?.approved_action_ids || []\<close>,
  \<^verbatim>\<open>isApproved = approvedIds.includes(action.id)\<close>, and likewise for rejection.
\<close>

definition approvedIds :: "AgentState \<Rightarrow> string list" where
  "approvedIds s = or_empty (approved_action_ids s)"

definition rejectedIds :: "AgentState \<Rightarrow> string list" where
  "rejectedIds s = or_empty (rejected_action_ids s)"

definition isApproved :: "AgentState \<Rightarrow> string \<Rightarrow> bool" where
  "isApproved s a = (a \<in> set (approvedIds s))"

definition isRejected :: "AgentState \<Rightarrow> string \<Rightarrow> bool" where
  "isRejected s a = (a \<in> set (rejectedIds s))"

text \<open>
  The decision shown for an action: \<^verbatim>\<open>ActionCard\<close> tests
  \<^verbatim>\<open>isApproved ? ... : isRejected ? ... : ...\<close> (approved, rejected, pending).
\<close>

datatype decision_t = Approved | Rejected | Pending

definition decision :: "AgentState \<Rightarrow> string \<Rightarrow> decision_t" where
  "decision s a = (if isApproved s a then Approved else if isRejected s a then Rejected else Pending)"

text \<open>
  The buttons of \<^verbatim>\<open>ActionCard\<close>: \<^verbatim>\<open>disabled={isApproved}\<close> on Approve,
  \<^verbatim>\<open>disabled={isRejected}\<close> on Reject.
\<close>

definition approve_button_enabled :: "AgentState \<Rightarrow> string \<Rightarrow> bool" where
  "approve_button_enabled s a = (\<not> isApproved s a)"

definition reject_button_enabled :: "AgentState \<Rightarrow> string \<Rightarrow> bool" where
  "reject_button_enabled s a = (\<not> isRejected s a)"

text \<open>A finite sequence of approve/reject calls, applied in order.\<close>

datatype ledger_op = Approve string | Reject string

fun op_id :: "ledger_op \<Rightarrow> string" where
  "op_id (Approve a) = a"
| "op_id (Reject a) = a"

fun apply_op :: "AgentState \<Rightarrow> ledger_op \<Rightarrow> AgentState" where
  "apply_op s (Approve a) = handleApprove a s"
| "apply_op s (Reject a) = handleReject a s"

definition run_ops :: "AgentState \<Rightarrow> ledger_op list \<Rightarrow> AgentState" where
  "run_ops s ops = foldl apply_op s ops"

text \<open>The last call of the sequence that names the id \<open>a\<close>, if there is one.\<close>

fun last_op :: "ledger_op list \<Rightarrow> string \<Rightarrow> ledger_op option" where
  "last_op [] a = None"
| "last_op (x # xs) a =
     (case last_op xs a of
        Some y \<Rightarrow> Some y
      | None \<Rightarrow> (if op_id x = a then Some x else None))"

text \<open>The ledger invariant: no id is in both lists.\<close>

definition exclusive :: "AgentState \<Rightarrow> bool" where
  "exclusive s = (set (approvedIds s) \<inter> set (rejectedIds s) = {})"

section \<open>Step selection (StepsFeedback and InterruptHumanInTheLoop)\<close>

text \<open>
  \<^verbatim>\<open>interface Step { description: string; status: "enabled" | "disabled" | "executing" }\<close>
\<close>

datatype step_status = Enabled | Disabled | Executing

record Step =
  description :: string
  status :: step_status

text \<open>
  An element of \<^verbatim>\<open>steps?: (string | Step)[]\<close> as it arrives from the agent: a bare
  string, or an object whose \<^verbatim>\<open>description\<close> and \<^verbatim>\<open>status\<close> may be missing (the
  source reads them as \<^verbatim>\<open>step.description || ""\<close> and
  \<^verbatim>\<open>step.status ? step.status : "enabled"\<close>).
\<close>

datatype raw_step = StepString string | StepObject "string option" "step_status option"

fun raw_description :: "raw_step \<Rightarrow> string" where
  "raw_description (StepString s) = s"
| "raw_description (StepObject None _) = []"
| "raw_description (StepObject (Some d) _) = d"

fun raw_status :: "raw_step \<Rightarrow> step_status" where
  "raw_status (StepObject _ (Some st)) = st"
| "raw_status _ = Enabled"

text \<open>
  The mapping used by the \<^verbatim>\<open>useEffect\<close> of StepsFeedback and by
  \<^verbatim>\<open>initialSteps\<close> of InterruptHumanInTheLoop.
\<close>

definition to_step :: "raw_step \<Rightarrow> Step" where
  "to_step r = \<lparr> description = raw_description r, status = raw_status r \<rparr>"

text \<open>The mapping of the fallback \<^verbatim>\<open>steps\<close> of StepsFeedback: every step enabled.\<close>

definition to_enabled_step :: "raw_step \<Rightarrow> Step" where
  "to_enabled_step r = \<lparr> description = raw_description r, status = Enabled \<rparr>"

text \<open>
  \<^verbatim>\<open>
  prevSteps.map((step, i) => i === index
    ? { ...step, status: step.status === "enabled" ? "disabled" : "enabled" } : step)
  \<close>
\<close>

definition toggle :: "Step \<Rightarrow> Step" where
  "toggle step = step\<lparr> status := (if status step = Enabled then Disabled else Enabled) \<rparr>"

definition toggle_at :: "nat \<Rightarrow> Step list \<Rightarrow> Step list" where
  "toggle_at index prevSteps =
     map (\<lambda>(i, step). if i = index then toggle step else step) (enumerate 0 prevSteps)"

definition enabled_steps :: "Step list \<Rightarrow> Step list" where
  "enabled_steps steps = filter (\<lambda>step. status step = Enabled) steps"

subsection \<open>StepsFeedback\<close>

text \<open>
  The props: \<^verbatim>\<open>args?.steps\<close> (\<open>None\<close> when \<^verbatim>\<open>args\<close> or \<^verbatim>\<open>args.steps\<close> is missing),
  whether a \<^verbatim>\<open>respond\<close> callback was passed, and \<^verbatim>\<open>status\<close>. The component state:
  \<^verbatim>\<open>localSteps\<close> and \<^verbatim>\<open>accepted\<close> (\<^verbatim>\<open>boolean | null\<close>).
\<close>

record StepsFeedbackProps =
  args_steps :: "raw_step list option"
  respond :: bool
  render_status :: string

record StepsFeedbackState =
  localSteps :: "Step list"
  accepted :: "bool option"

text \<open>\<^verbatim>\<open>interface StepsFeedbackResponse { accepted: boolean; steps?: Step[] }\<close>\<close>

record StepsFeedbackResponse =
  r_accepted :: bool
  r_steps :: "Step list option"

text \<open>The initial state: \<^verbatim>\<open>useState([])\<close>, \<^verbatim>\<open>useState(null)\<close>.\<close>

definition mount :: StepsFeedbackState where
  "mount = \<lparr> localSteps = [], accepted = None \<rparr>"

text \<open>
  \<^verbatim>\<open>
  useEffect(() => {
    if (status === "executing" && localSteps.length === 0 && args?.steps)
      setLocalSteps(args.steps.map(...));
  })
  \<close>
\<close>

definition sync_effect :: "StepsFeedbackProps \<Rightarrow> StepsFeedbackState \<Rightarrow> StepsFeedbackState" where
  "sync_effect props st =
     (case args_steps props of
        Some raw \<Rightarrow>
          (if render_status props = ''executing'' \<and> localSteps st = []
           then st\<lparr> localSteps := map to_step raw \<rparr> else st)
      | None \<Rightarrow> st)"

text \<open>\<^verbatim>\<open>if (!args?.steps || args.steps.length === 0) return null;\<close>\<close>

definition rendered :: "StepsFeedbackProps \<Rightarrow> bool" where
  "rendered props = (case args_steps props of None \<Rightarrow> False | Some raw \<Rightarrow> raw \<noteq> [])"

text \<open>
  The steps shown:
  \<^verbatim>\<open>localSteps.length > 0 ? localSteps : args.steps.map(step => ({..., status: "enabled"}))\<close>.
\<close>

definition shown_steps :: "StepsFeedbackProps \<Rightarrow> StepsFeedbackState \<Rightarrow> Step list" where
  "shown_steps props st =
     (if localSteps st \<noteq> [] then localSteps st
      else map to_enabled_step (or_empty (args_steps props)))"

text \<open>
  The handlers return the next state and the calls of \<^verbatim>\<open>respond\<close> they make.
  \<^verbatim>\<open>
  handleReject:  if (respond) { setAccepted(false); respond({ accepted: false }); }
  handleConfirm: if (respond) { setAccepted(true);
      respond({ accepted: true, steps: localSteps.filter(s => s.status === "enabled") }); }
  \<close>
\<close>

definition sf_handleReject ::
  "StepsFeedbackProps \<Rightarrow> StepsFeedbackState \<Rightarrow> StepsFeedbackState \<times> StepsFeedbackResponse list" where
  "sf_handleReject props st =
     (if respond props
      then (st\<lparr> accepted := Some False \<rparr>, [\<lparr> r_accepted = False, r_steps = None \<rparr>])
      else (st, []))"

definition sf_handleConfirm ::
  "StepsFeedbackProps \<Rightarrow> StepsFeedbackState \<Rightarrow> StepsFeedbackState \<times> StepsFeedbackResponse list" where
  "sf_handleConfirm props st =
     (if respond props
      then (st\<lparr> accepted := Some True \<rparr>,
            [\<lparr> r_accepted = True, r_steps = Some (enabled_steps (localSteps st)) \<rparr>])
      else (st, []))"

definition sf_handleStepToggle :: "nat \<Rightarrow> StepsFeedbackState \<Rightarrow> StepsFeedbackState" where
  "sf_handleStepToggle index st = st\<lparr> localSteps := toggle_at index (localSteps st) \<rparr>"

text \<open>
  What the user can do to the rendered component. The two buttons exist only under
  \<^verbatim>\<open>{accepted === null && (...)}\<close> and carry \<^verbatim>\<open>disabled={status !== "executing"}\<close>;
  the checkboxes carry the same \<^verbatim>\<open>disabled\<close>. A control that is not rendered or is
  disabled fires no handler.
\<close>

datatype ui_event = ClickReject | ClickConfirm | ToggleStep nat

definition buttons_active :: "StepsFeedbackProps \<Rightarrow> StepsFeedbackState \<Rightarrow> bool" where
  "buttons_active props st =
     (rendered props \<and> accepted st = None \<and> render_status props = ''executing'')"

fun on_event ::
  "StepsFeedbackProps \<Rightarrow> StepsFeedbackState \<Rightarrow> ui_event
     \<Rightarrow> StepsFeedbackState \<times> StepsFeedbackResponse list" where
  "on_event props st ClickReject =
     (if buttons_active props st then sf_handleReject props st else (st, []))"
| "on_event props st ClickConfirm =
     (if buttons_active props st then sf_handleConfirm props st else (st, []))"
| "on_event props st (ToggleStep i) =
     (if rendered props \<and> render_status props = ''executing''
      then (sf_handleStepToggle i st, []) else (st, []))"

text \<open>
  A session of the component: each user event happens under the props of the render it
  is made on (the hook changes \<^verbatim>\<open>status\<close> and \<^verbatim>\<open>respond\<close> between renders); the
  effect runs after each render. The result is the final state and every call of
  \<^verbatim>\<open>respond\<close> made, in order.
\<close>

fun sf_run ::
  "StepsFeedbackState \<Rightarrow> (StepsFeedbackProps \<times> ui_event) list
     \<Rightarrow> StepsFeedbackState \<times> StepsFeedbackResponse list" where
  "sf_run st [] = (st, [])"
| "sf_run st ((props, ev) # rest) =
     (let (st1, out1) = on_event props (sync_effect props st) ev;
          (st2, out2) = sf_run st1 rest
      in (st2, out1 @ out2))"

subsection \<open>InterruptHumanInTheLoop\<close>

text \<open>
  \<^verbatim>\<open>event?.value?.steps\<close> when it is an array, else no steps:
  \<^verbatim>\<open>initialSteps = event.value.steps.map(...)\<close> or \<^verbatim>\<open>[]\<close>.
\<close>

definition initialSteps :: "raw_step list option \<Rightarrow> Step list" where
  "initialSteps event_steps = map to_step (or_empty event_steps)"

text \<open>\<^verbatim>\<open>Array.prototype.join\<close> on strings.\<close>

fun join :: "string \<Rightarrow> string list \<Rightarrow> string" where
  "join sep [] = []"
| "join sep [x] = x"
| "join sep (x # y # ys) = x @ sep @ join sep (y # ys)"

text \<open>
  \<^verbatim>\<open>
  const selectedSteps = localSteps.filter(s => s.status === "enabled").map(s => s.description);
  resolve("The user selected the following steps: " + selectedSteps.join(", "));
  \<close>
  The value is the argument the handler passes to \<^verbatim>\<open>resolve\<close>.
\<close>

definition handlePerformSteps :: "Step list \<Rightarrow> string" where
  "handlePerformSteps steps =
     ''The user selected the following steps: ''
       @ join '', '' (map description (enabled_steps steps))"

text \<open>
  The events of this component: toggling a checkbox and pressing Perform Steps. Neither
  control is ever hidden or disabled. The result of a session is the list of
  arguments of the calls of \<^verbatim>\<open>resolve\<close>, in order.
\<close>

datatype interrupt_event = Toggle nat | PerformSteps

fun interrupt_run :: "Step list \<Rightarrow> interrupt_event list \<Rightarrow> string list" where
  "interrupt_run steps [] = []"
| "interrupt_run steps (Toggle i # rest) = interrupt_run (toggle_at i steps) rest"
| "interrupt_run steps (PerformSteps # rest) = handlePerformSteps steps # interrupt_run steps rest"

section \<open>Suspension controller\<close>

text \<open>
  The controller behind \<^verbatim>\<open>useLangGraphInterrupt\<close> and \<^verbatim>\<open>useHumanInTheLoop\<close> is not
  among the sources: only the callers of \<^verbatim>\<open>resolve\<close> and \<^verbatim>\<open>respond\<close> are. Every
  definition of this section follows section 4.3 of the specification.
\<close>

text \<open>
  Modelled from the spec: the controller's states, which the sources do not define.
  ``States: IDLE, AWAITING_INPUT, RESUMING, IDLE''; AWAITING_INPUT holds the payload of
  the suspension request, RESUMING the resolution value.
\<close>

datatype ('p, 'v) controller = IDLE | AWAITING_INPUT 'p | RESUMING 'v

text \<open>
  Modelled from the spec: the two misuse errors, which the sources do not define.
\<close>

datatype suspension_error = AlreadyResolved | NoPendingSuspension

text \<open>
  Modelled from the spec: the agent's suspension request, missing from the sources.
  It moves IDLE to AWAITING_INPUT; there is at most one outstanding suspension, so in
  any other state there is no transition.
\<close>

fun suspend :: "'p \<Rightarrow> ('p, 'v) controller \<Rightarrow> ('p, 'v) controller option" where
  "suspend p IDLE = Some (AWAITING_INPUT p)"
| "suspend p _ = None"

text \<open>
  Modelled from the spec: the implementation of \<^verbatim>\<open>resolve\<close>, missing from the sources.
  One client call with a resolution value moves AWAITING_INPUT to RESUMING, the value
  opaque to the controller; a second resolution is rejected with AlreadyResolved, a
  resolution while IDLE with NoPendingSuspension.
\<close>

fun resolve :: "'v \<Rightarrow> ('p, 'v) controller \<Rightarrow> suspension_error + ('p, 'v) controller" where
  "resolve v (AWAITING_INPUT p) = Inr (RESUMING v)"
| "resolve v (RESUMING w) = Inl AlreadyResolved"
| "resolve v IDLE = Inl NoPendingSuspension"

text \<open>
  Modelled from the spec: acknowledged resumption, missing from the sources. RESUMING
  moves to IDLE when the next run starts, and that run's input carries the resolution
  value as the result of the suspended operation.
\<close>

fun resume :: "('p, 'v) controller \<Rightarrow> ('v \<times> ('p, 'v) controller) option" where
  "resume (RESUMING v) = Some (v, IDLE)"
| "resume _ = None"

text \<open>
  Modelled from the spec: a series of resolution calls on one controller, the calls
  being those of the missing \<^verbatim>\<open>resolve\<close>. A rejected call is raised to the caller and
  leaves the controller as it was. The result lists each call's outcome (\<open>None\<close> for
  success).
\<close>

fun resolve_calls ::
  "('p, 'v) controller \<Rightarrow> 'v list \<Rightarrow> suspension_error option list \<times> ('p, 'v) controller" where
  "resolve_calls c [] = ([], c)"
| "resolve_calls c (v # vs) =
     (case resolve v c of
        Inl e \<Rightarrow> (let (out, c') = resolve_calls c vs in (Some e # out, c'))
      | Inr c1 \<Rightarrow> (let (out, c') = resolve_calls c1 vs in (None # out, c')))"

section \<open>State reconciler\<close>

text \<open>
  The reconciler behind \<^verbatim>\<open>useCoAgent\<close> is not among the sources: the components only
  read \<^verbatim>\<open>state\<close> and call \<^verbatim>\<open>setState\<close>. Every definition of this section follows
  section 4.2 of the specification.
\<close>

text \<open>
  Modelled from the spec: the client's local view, which the sources do not define. A
  document of named fields, the set of fields under active local edit (modified locally
  and not yet sent), and the dirty flag.
\<close>

record view =
  doc :: "string \<rightharpoonup> json"
  edited :: "string set"
  dirty :: bool

text \<open>
  Modelled from the spec: \<open>applySnapshot\<close>, missing from the sources. It ``replaces the
  client's local view entirely, except fields the client has locally modified'': the
  snapshot wins for every field not under active local edit.
\<close>

definition applySnapshot :: "(string \<rightharpoonup> json) \<Rightarrow> view \<Rightarrow> view" where
  "applySnapshot state v = v\<lparr> doc := (\<lambda>k. if k \<in> edited v then doc v k else state k) \<rparr>"

text \<open>
  Modelled from the spec: \<open>applyDelta\<close>, missing from the sources. It ``merges a
  partial structural patch into the local view field-by-field (map union; array/list
  fields are wholesale-replaced by the patch, not element-merged)''.
\<close>

definition applyDelta :: "(string \<rightharpoonup> json) \<Rightarrow> view \<Rightarrow> view" where
  "applyDelta patch v = v\<lparr> doc := doc v ++ patch \<rparr>"

section \<open>Task plan (TaskPlannerDisplay)\<close>

datatype ComplexityLevel = Trivial | Simple | Moderate | Complex | Highly_Complex

datatype Priority = Critical | High | Medium | Low | Backlog

datatype Phase = Discovery | Planning | Development | Testing | Deployment | Maintenance

datatype TaskCategory =
  Research | Design | Coding | Documentation | Review | Meeting | Infrastructure | Security

datatype SubtaskStatus = Not_Started | In_Progress | Blocked | Completed | Cancelled

text \<open>A \<^verbatim>\<open>number\<close> field is carried as the rational it denotes.\<close>

record Subtask =
  st_id :: string
  st_title :: string
  st_description :: string
  st_status :: SubtaskStatus
  st_estimated_hours :: rat
  assignee :: string

record Task =
  t_id :: string
  title :: string
  t_description :: string
  complexity :: ComplexityLevel
  priority :: Priority
  phase :: Phase
  categories :: "TaskCategory list"
  subtasks :: "Subtask list"
  dependencies :: "string list"
  estimated_hours :: rat
  t_notes :: string

record TaskPlanState =
  project_name :: string
  project_description :: string
  current_phase :: Phase
  tasks :: "Task list"
  selected_priority_filter :: "Priority option"
  selected_phase_filter :: "Phase option"
  last_updated :: string
  planning_complete :: bool

text \<open>
  \<^verbatim>\<open>
  const handleTaskUpdate = (updatedTask) => setState((prev) => ({
    ...prev,
    tasks: prev.tasks.map((t) => t.id === updatedTask.id ? updatedTask : t),
    last_updated: new Date().toISOString(),
  }));
  \<close>
  \<open>now\<close> is the value of \<^verbatim>\<open>new Date().toISOString()\<close> at the call.
\<close>

definition handleTaskUpdate :: "string \<Rightarrow> Task \<Rightarrow> TaskPlanState \<Rightarrow> TaskPlanState" where
  "handleTaskUpdate now updatedTask prev =
     prev\<lparr> tasks := map (\<lambda>t. if t_id t = t_id updatedTask then updatedTask else t) (tasks prev),
            last_updated := now \<rparr>"

section \<open>Health probe (server.js)\<close>

datatype http_method = GET | POST | PUT | DELETE | OPTIONS

record request =
  rq_method :: http_method
  rq_path :: string

text \<open>
  A response: a status code with a JSON body, the hand-over to the CopilotKit runtime
  handler (not modelled), or no route.
\<close>

datatype response = Json nat json | Runtime | NoRoute

text \<open>
  \<^verbatim>\<open>
  app.get("/health", (req, res) => {
    res.json({ status: "ok", service: "copilotkit-runtime" });
  });
  \<close>
  \<^verbatim>\<open>res.json\<close> sends the object with status 200.
\<close>

definition health :: "request \<Rightarrow> response" where
  "health req = Json 200 (JObj [(''status'', JStr ''ok''), (''service'', JStr ''copilotkit-runtime'')])"

text \<open>
  The routes in the order they are registered: \<^verbatim>\<open>app.use("/api/copilotkit", ...)\<close> takes
  every method under that path, \<^verbatim>\<open>app.get("/health", ...)\<close> takes GET on the health path.
  The two middlewares registered before them, \<^verbatim>\<open>cors()\<close> and \<^verbatim>\<open>express.json()\<close>, are
  library code and are not modelled: a request here is one they have passed on.
\<close>

definition serve :: "request \<Rightarrow> response" where
  "serve req =
     (if rq_path req = ''/api/copilotkit'' \<or> prefix ''/api/copilotkit/'' (rq_path req) then Runtime
      else if rq_method req = GET \<and> rq_path req = ''/health'' then health req
      else NoRoute)"

section \<open>Numbers and the progress bar (TaskPlannerDisplay)\<close>

text \<open>
  A \<^verbatim>\<open>number\<close> is an IEEE 754 binary64 value. A finite one is carried as the rational
  it denotes, and an arithmetic operation is the exact operation followed by rounding to
  the nearest value with a 53-bit significand, ties to the even significand. The
  exponent range is not bounded here (no overflow, no subnormal values), which is what
  binary64 does for magnitudes from \<open>2 powi (-1022)\<close> up to \<open>2 powi 1024\<close>; the
  quotient of two counts and its product with 100 lie there.
\<close>

text \<open>\<open>\<lfloor>log\<^sub>2 x\<rfloor>\<close> for a positive rational, through the bit length of an integer.\<close>

definition ilog2 :: "rat \<Rightarrow> int" where
  "ilog2 x = (if 1 \<le> x then bitlen \<lfloor>x\<rfloor> - 1 else - bitlen (\<lceil>1 / x\<rceil> - 1))"

text \<open>Rounding to the nearest integer, a tie going to the even one.\<close>

definition rne :: "rat \<Rightarrow> int" where
  "rne q = (let f = \<lfloor>q\<rfloor>; r = q - of_int f
            in if r < 1 / 2 then f else if 1 / 2 < r then f + 1
               else if even f then f else f + 1)"

text \<open>The unit in the last place of the binade of \<open>x\<close>: 52 fraction bits.\<close>

definition ulp :: "rat \<Rightarrow> rat" where
  "ulp x = 2 powi (ilog2 \<bar>x\<bar> - 52)"

text \<open>The binary64 value nearest to \<open>x\<close>.\<close>

definition fl :: "rat \<Rightarrow> rat" where
  "fl x = (if x = 0 then 0 else of_int (rne (x / ulp x)) * ulp x)"

text \<open>
  \<^verbatim>\<open>a / b\<close> and \<^verbatim>\<open>a * b\<close> on finite numbers. A zero divisor gives \<^verbatim>\<open>Infinity\<close> or
  \<^verbatim>\<open>NaN\<close>, no finite number: \<open>None\<close>.
\<close>

definition js_div :: "rat \<Rightarrow> rat \<Rightarrow> rat option" where
  "js_div a b = (if b = 0 then None else Some (fl (a / b)))"

definition js_mul :: "rat \<Rightarrow> rat \<Rightarrow> rat" where
  "js_mul a b = fl (a * b)"

text \<open>
  \<^verbatim>\<open>Math.round\<close>: the nearest integer, a tie going up (towards \<open>+\<infinity>\<close>).
\<close>

definition Math_round :: "rat \<Rightarrow> int" where
  "Math_round x = \<lfloor>x + 1 / 2\<rfloor>"

text \<open>
  \<^verbatim>\<open>const percentage = total > 0 ? Math.round((completed / total) * 100) : 0;\<close>
  The result is \<open>None\<close> if the division produced no finite number.
\<close>

definition percentage :: "rat \<Rightarrow> rat \<Rightarrow> int option" where
  "percentage completed total' =
     (if total' > 0
      then (case js_div completed total' of
              None \<Rightarrow> None
            | Some q \<Rightarrow> Some (Math_round (js_mul q 100)))
      else Some 0)"

text \<open>
  The value the specification names for a positive total, in exact arithmetic:
  \<open>round(100 * completed / total)\<close>, a tie going up.
\<close>

definition claimed_percentage :: "nat \<Rightarrow> nat \<Rightarrow> int" where
  "claimed_percentage c t = \<lfloor>(100 * of_nat c / of_nat t :: rat) + 1 / 2\<rfloor>"

section \<open>Properties of the approval ledger\<close>

lemma approvedIds_handleApprove: "approvedIds (handleApprove a s) = approvedIds s @ [a]"
  by (simp add: approvedIds_def handleApprove_def)

lemma rejectedIds_handleApprove:
  "rejectedIds (handleApprove a s) = filter (\<lambda>i. i \<noteq> a) (rejectedIds s)"
  by (simp add: rejectedIds_def handleApprove_def)

lemma rejectedIds_handleReject: "rejectedIds (handleReject a s) = rejectedIds s @ [a]"
  by (simp add: rejectedIds_def handleReject_def)

lemma approvedIds_handleReject:
  "approvedIds (handleReject a s) = filter (\<lambda>i. i \<noteq> a) (approvedIds s)"
  by (simp add: approvedIds_def handleReject_def)

lemmas ledger_simps =
  approvedIds_handleApprove rejectedIds_handleApprove
  rejectedIds_handleReject approvedIds_handleReject

lemma exclusive_apply_op: "exclusive s \<Longrightarrow> exclusive (apply_op s x)"
  by (cases x) (auto simp: exclusive_def ledger_simps)

lemma exclusive_run_ops: "exclusive s \<Longrightarrow> exclusive (run_ops s ops)"
  unfolding run_ops_def
  by (induction ops arbitrary: s) (simp_all add: exclusive_apply_op)

lemma exclusive_initialState: "exclusive initialState"
  by (simp add: exclusive_def initialState_def approvedIds_def rejectedIds_def)

lemma exclusive_not_both: "exclusive s \<Longrightarrow> \<not> (isApproved s a \<and> isRejected s a)"
  by (auto simp: exclusive_def isApproved_def isRejected_def)

lemma run_ops_snoc: "run_ops s (ops @ [x]) = apply_op (run_ops s ops) x"
  by (simp add: run_ops_def)

lemma last_op_snoc: "last_op (ops @ [x]) a = (if op_id x = a then Some x else last_op ops a)"
  by (induction ops) (auto split: option.splits)

text \<open>
  Membership of an id after a sequence of calls is fixed by the last call that names it;
  an id no call names keeps the membership it had. The induction is on the sequence
  from its end, since that is where the deciding call sits.
\<close>

lemma membership_last_op:
  "(case last_op ops a of
      Some (Approve _) \<Rightarrow> isApproved (run_ops s ops) a \<and> \<not> isRejected (run_ops s ops) a
    | Some (Reject _) \<Rightarrow> isRejected (run_ops s ops) a \<and> \<not> isApproved (run_ops s ops) a
    | None \<Rightarrow> isApproved (run_ops s ops) a = isApproved s a
             \<and> isRejected (run_ops s ops) a = isRejected s a)"
proof (induction ops rule: rev_induct)
  case Nil
  show ?case by (simp add: run_ops_def)
next
  case (snoc x ops)
  show ?case
  proof (cases "op_id x = a")
    case True
    then show ?thesis
      by (cases x)
        (simp_all add: last_op_snoc run_ops_snoc isApproved_def isRejected_def ledger_simps)
  next
    case False
    then have "last_op (ops @ [x]) a = last_op ops a"
      by (simp add: last_op_snoc)
    moreover from False
    have "isApproved (run_ops s (ops @ [x])) a = isApproved (run_ops s ops) a"
      and "isRejected (run_ops s (ops @ [x])) a = isRejected (run_ops s ops) a"
      by (cases x; auto simp: run_ops_snoc isApproved_def isRejected_def ledger_simps)+
    ultimately show ?thesis
      using snoc by (simp split: option.splits ledger_op.splits)
  qed
qed

text \<open>
  Claim C1 (approval exclusivity). After any finite sequence of approve/reject calls, an
  id is in at most one of \<^verbatim>\<open>approved_action_ids\<close> and \<^verbatim>\<open>rejected_action_ids\<close>: this
  holds from every state whose two lists share no id, the initial state among them.
  From any state at all, the last call naming the id decides its list (approved and not
  rejected after an approve, rejected and not approved after a reject), and an id no
  call names keeps its membership. In particular approve(a) then reject(a) leaves
  \<open>a\<close> rejected and out of the approved list.
\<close>

theorem approval_exclusivity:
  "(exclusive s \<longrightarrow> \<not> (isApproved (run_ops s ops) a \<and> isRejected (run_ops s ops) a))
   \<and> \<not> (isApproved (run_ops initialState ops) a \<and> isRejected (run_ops initialState ops) a)
   \<and> (case last_op ops a of
        Some (Approve _) \<Rightarrow> isApproved (run_ops s ops) a \<and> \<not> isRejected (run_ops s ops) a
      | Some (Reject _) \<Rightarrow> isRejected (run_ops s ops) a \<and> \<not> isApproved (run_ops s ops) a
      | None \<Rightarrow> isApproved (run_ops s ops) a = isApproved s a
               \<and> isRejected (run_ops s ops) a = isRejected s a)
   \<and> decision (handleReject a (handleApprove a s)) a = Rejected
   \<and> a \<notin> set (approvedIds (handleReject a (handleApprove a s)))
   \<and> a \<in> set (rejectedIds (handleReject a (handleApprove a s)))"
proof -
  have "exclusive s \<longrightarrow> \<not> (isApproved (run_ops s ops) a \<and> isRejected (run_ops s ops) a)"
    using exclusive_not_both exclusive_run_ops by blast
  moreover
  have "\<not> (isApproved (run_ops initialState ops) a \<and> isRejected (run_ops initialState ops) a)"
    using exclusive_not_both exclusive_run_ops exclusive_initialState by blast
  moreover have "decision (handleReject a (handleApprove a s)) a = Rejected"
    by (simp add: decision_def isApproved_def isRejected_def ledger_simps)
  moreover have "a \<notin> set (approvedIds (handleReject a (handleApprove a s)))"
    by (simp add: ledger_simps)
  moreover have "a \<in> set (rejectedIds (handleReject a (handleApprove a s)))"
    by (simp add: ledger_simps)
  ultimately show ?thesis
    using membership_last_op [where ops = ops and a = a and s = s] by blast
qed

theorem approval_exclusivity_witness:
  "exclusive initialState
   \<and> last_op [Approve ''a1'', Reject ''a2'', Reject ''a1''] ''a1'' = Some (Reject ''a1'')
   \<and> isRejected (run_ops initialState [Approve ''a1'', Reject ''a2'', Reject ''a1'']) ''a1''
   \<and> \<not> isApproved (run_ops initialState [Approve ''a1'', Reject ''a2'', Reject ''a1'']) ''a1''"
  using approval_exclusivity
    [of initialState "[Approve ''a1'', Reject ''a2'', Reject ''a1'']" "''a1''"]
  by (simp add: exclusive_initialState)

text \<open>
  Claim C2 (approval idempotence) as stated fails: \<^verbatim>\<open>handleApprove\<close> appends the id
  without looking for it, so the second call lengthens the approved list.
\<close>

theorem approve_twice_counterexample:
  "handleApprove ''a1'' (handleApprove ''a1'' initialState) \<noteq> handleApprove ''a1'' initialState
   \<and> approved_action_ids (handleApprove ''a1'' (handleApprove ''a1'' initialState))
       = Some [''a1'', ''a1'']
   \<and> approved_action_ids (handleApprove ''a1'' initialState) = Some [''a1'']"
  by (simp add: handleApprove_def initialState_def)

text \<open>
  Claim C2, amended. A repeated approve(a) changes nothing but the approved list, which
  gains one more copy of \<open>a\<close>: the set of approved ids, the rejected list, every other
  field and the decision of every id \<open>b\<close> are as after the first call; the same holds
  for reject with the lists exchanged. In the interface the repeated call is not
  offered: after approve(a) the Approve button of \<open>a\<close> is disabled, after reject(a)
  its Reject button.
\<close>

theorem approval_idempotent_on_membership:
  "handleApprove a (handleApprove a s) =
     (handleApprove a s)\<lparr> approved_action_ids := Some (approvedIds (handleApprove a s) @ [a]) \<rparr>
   \<and> handleReject a (handleReject a s) =
     (handleReject a s)\<lparr> rejected_action_ids := Some (rejectedIds (handleReject a s) @ [a]) \<rparr>
   \<and> set (approvedIds (handleApprove a (handleApprove a s))) = set (approvedIds (handleApprove a s))
   \<and> rejectedIds (handleApprove a (handleApprove a s)) = rejectedIds (handleApprove a s)
   \<and> set (rejectedIds (handleReject a (handleReject a s))) = set (rejectedIds (handleReject a s))
   \<and> approvedIds (handleReject a (handleReject a s)) = approvedIds (handleReject a s)
   \<and> decision (handleApprove a (handleApprove a s)) b = decision (handleApprove a s) b
   \<and> decision (handleReject a (handleReject a s)) b = decision (handleReject a s) b
   \<and> \<not> approve_button_enabled (handleApprove a s) a
   \<and> \<not> reject_button_enabled (handleReject a s) a"
proof -
  have 1: "handleApprove a (handleApprove a s) =
     (handleApprove a s)\<lparr> approved_action_ids := Some (approvedIds (handleApprove a s) @ [a]) \<rparr>"
    by (simp add: handleApprove_def approvedIds_def)
  have 2: "handleReject a (handleReject a s) =
     (handleReject a s)\<lparr> rejected_action_ids := Some (rejectedIds (handleReject a s) @ [a]) \<rparr>"
    by (simp add: handleReject_def rejectedIds_def)
  have 3: "set (approvedIds (handleApprove a (handleApprove a s)))
             = set (approvedIds (handleApprove a s))"
    by (auto simp: ledger_simps)
  have 4: "rejectedIds (handleApprove a (handleApprove a s)) = rejectedIds (handleApprove a s)"
    by (simp add: ledger_simps)
  have 5: "set (rejectedIds (handleReject a (handleReject a s)))
             = set (rejectedIds (handleReject a s))"
    by (auto simp: ledger_simps)
  have 6: "approvedIds (handleReject a (handleReject a s)) = approvedIds (handleReject a s)"
    by (simp add: ledger_simps)
  have 7: "decision (handleApprove a (handleApprove a s)) b = decision (handleApprove a s) b"
    by (simp add: decision_def isApproved_def isRejected_def 3 4)
  have 8: "decision (handleReject a (handleReject a s)) b = decision (handleReject a s) b"
    by (simp add: decision_def isApproved_def isRejected_def 5 6)
  have 9: "\<not> approve_button_enabled (handleApprove a s) a"
    by (simp add: approve_button_enabled_def isApproved_def ledger_simps)
  have 10: "\<not> reject_button_enabled (handleReject a s) a"
    by (simp add: reject_button_enabled_def isRejected_def ledger_simps)
  from 1 2 3 4 5 6 7 8 9 10 show ?thesis by blast
qed

section \<open>Properties of the step-selection components and the suspension controller\<close>

lemma sync_effect_accepted: "accepted (sync_effect props st) = accepted st"
  by (simp add: sync_effect_def split: option.splits)

lemma on_event_outputs: "length (snd (on_event props st ev)) \<le> 1"
  by (cases ev) (simp_all add: sf_handleReject_def sf_handleConfirm_def)

lemma on_event_accepted_silent:
  "accepted st \<noteq> None \<Longrightarrow>
     snd (on_event props st ev) = [] \<and> accepted (fst (on_event props st ev)) = accepted st"
  by (cases ev) (auto simp: buttons_active_def sf_handleStepToggle_def)

lemma on_event_output_accepted:
  "snd (on_event props st ev) \<noteq> [] \<Longrightarrow> accepted (fst (on_event props st ev)) \<noteq> None"
  by (cases ev) (auto simp: sf_handleReject_def sf_handleConfirm_def split: if_splits)

lemma sf_run_Cons:
  "sf_run st ((props, ev) # rest) =
     (fst (sf_run (fst (on_event props (sync_effect props st) ev)) rest),
      snd (on_event props (sync_effect props st) ev)
        @ snd (sf_run (fst (on_event props (sync_effect props st) ev)) rest))"
  by (simp split: prod.splits)

text \<open>Once \<^verbatim>\<open>accepted\<close> is set, no event of any later render calls \<^verbatim>\<open>respond\<close>.\<close>

lemma sf_run_accepted_silent: "accepted st \<noteq> None \<Longrightarrow> snd (sf_run st evs) = []"
proof (induction evs arbitrary: st)
  case Nil
  show ?case by simp
next
  case (Cons pe evs)
  obtain props ev where pe: "pe = (props, ev)" by (cases pe)
  let ?st0 = "sync_effect props st"
  from Cons.prems have a0: "accepted ?st0 \<noteq> None"
    by (simp add: sync_effect_accepted)
  from on_event_accepted_silent [OF a0, of props ev]
  have out: "snd (on_event props ?st0 ev) = []"
    and acc: "accepted (fst (on_event props ?st0 ev)) \<noteq> None"
    using a0 by simp_all
  from Cons.IH [OF acc] out show ?case
    by (simp only: pe sf_run_Cons) simp
qed

text \<open>A whole session calls \<^verbatim>\<open>respond\<close> at most once: the first call sets \<^verbatim>\<open>accepted\<close>.\<close>

lemma sf_run_at_most_one: "length (snd (sf_run st evs)) \<le> 1"
proof (induction evs arbitrary: st)
  case Nil
  show ?case by simp
next
  case (Cons pe evs)
  obtain props ev where pe: "pe = (props, ev)" by (cases pe)
  let ?st0 = "sync_effect props st"
  let ?r = "on_event props ?st0 ev"
  show ?case
  proof (cases "snd ?r = []")
    case True
    with Cons.IH [of "fst ?r"] show ?thesis
      by (simp only: pe sf_run_Cons) simp
  next
    case False
    then have "accepted (fst ?r) \<noteq> None"
      by (rule on_event_output_accepted)
    then have "snd (sf_run (fst ?r) evs) = []"
      by (rule sf_run_accepted_silent)
    with on_event_outputs [of props ?st0 ev] show ?thesis
      by (simp only: pe sf_run_Cons) simp
  qed
qed

lemma resolve_calls_resuming:
  "resolve_calls (RESUMING w) vs = (replicate (length vs) (Some AlreadyResolved), RESUMING w)"
  by (induction vs) simp_all

lemma resolve_calls_awaiting:
  "resolve_calls (AWAITING_INPUT p) (v # vs) =
     (None # replicate (length vs) (Some AlreadyResolved), RESUMING v)"
  by (simp add: resolve_calls_resuming)

lemma resolve_calls_awaiting_successes:
  "length (filter (\<lambda>r. r = None) (fst (resolve_calls (AWAITING_INPUT p) vs))) \<le> 1"
  by (cases vs) (simp_all add: resolve_calls_resuming)

lemma length_interrupt_run:
  "length (interrupt_run steps evs) = length (filter (\<lambda>e. e = PerformSteps) evs)"
  by (induction steps evs rule: interrupt_run.induct) simp_all

text \<open>
  Claim C3 (single-flight suspension) as stated fails for one of the two client
  components: InterruptHumanInTheLoop keeps no record of a response, its button is
  never hidden or disabled, and a second press of Perform Steps issues a second call of
  \<^verbatim>\<open>resolve\<close> for the same suspension. It is the controller that rejects that call.
\<close>

theorem interrupt_second_resolve_counterexample:
  "interrupt_run (initialSteps (Some [StepString ''A'', StepString ''B'']))
     [PerformSteps, PerformSteps]
     = [''The user selected the following steps: A, B'',
        ''The user selected the following steps: A, B'']
   \<and> fst (resolve_calls (AWAITING_INPUT (JObj [(''steps'', JArr [JStr ''A'', JStr ''B''])]))
        (interrupt_run (initialSteps (Some [StepString ''A'', StepString ''B'']))
           [PerformSteps, PerformSteps]))
     = [None, Some AlreadyResolved]"
  by (simp add: initialSteps_def to_step_def handlePerformSteps_def enabled_steps_def)

text \<open>
  Claim C3, amended. On the controller: of the resolution calls made on a suspension in
  AWAITING_INPUT exactly the first succeeds and every later one is rejected with
  AlreadyResolved; a resolution call while IDLE is rejected with NoPendingSuspension.
  In StepsFeedback: once \<^verbatim>\<open>accepted\<close> is non-null no event of any later render calls
  \<^verbatim>\<open>respond\<close>; a session calls it at most once; and a call of \<^verbatim>\<open>respond\<close> always
  sets \<^verbatim>\<open>accepted\<close>. InterruptHumanInTheLoop calls \<^verbatim>\<open>resolve\<close> once for every
  press of Perform Steps, and of these calls the controller lets at most one succeed.
\<close>

theorem single_flight_suspension:
  "resolve_calls (AWAITING_INPUT p) (v # vs)
     = (None # replicate (length vs) (Some AlreadyResolved), RESUMING v)
   \<and> length (filter (\<lambda>r. r = None) (fst (resolve_calls (AWAITING_INPUT p) (v # vs)))) = 1
   \<and> resolve v (IDLE :: ('p, 'v) controller) = Inl NoPendingSuspension
   \<and> (accepted st \<noteq> None \<longrightarrow> snd (sf_run st evs) = [])
   \<and> length (snd (sf_run st1 evs)) \<le> 1
   \<and> (snd (on_event props st0 ev) \<noteq> [] \<longrightarrow> accepted (fst (on_event props st0 ev)) \<noteq> None)
   \<and> length (interrupt_run steps ievs) = length (filter (\<lambda>e. e = PerformSteps) ievs)
   \<and> length (filter (\<lambda>r. r = None)
        (fst (resolve_calls (AWAITING_INPUT q) (interrupt_run steps ievs)))) \<le> 1"
proof -
  have "length (filter (\<lambda>r. r = None) (fst (resolve_calls (AWAITING_INPUT p) (v # vs)))) = 1"
    by (simp add: resolve_calls_resuming)
  then show ?thesis
    using resolve_calls_awaiting [of p v vs] sf_run_accepted_silent [of st evs]
      sf_run_at_most_one [of st1 evs] on_event_output_accepted [of props st0 ev]
      length_interrupt_run [of steps ievs]
      resolve_calls_awaiting_successes [of q "interrupt_run steps ievs"]
    by simp
qed

theorem single_flight_suspension_witness:
  "accepted \<lparr> localSteps = [\<lparr> description = ''A'', status = Enabled \<rparr>], accepted = Some True \<rparr> \<noteq> None
   \<and> snd (sf_run \<lparr> localSteps = [\<lparr> description = ''A'', status = Enabled \<rparr>], accepted = Some True \<rparr>
        [(\<lparr> args_steps = Some [StepString ''A''], respond = True, render_status = ''executing'' \<rparr>,
          ClickConfirm),
         (\<lparr> args_steps = Some [StepString ''A''], respond = True, render_status = ''executing'' \<rparr>,
          ClickReject)]) = []
   \<and> snd (on_event
        \<lparr> args_steps = Some [StepString ''A''], respond = True, render_status = ''executing'' \<rparr>
        \<lparr> localSteps = [\<lparr> description = ''A'', status = Enabled \<rparr>], accepted = None \<rparr>
        ClickConfirm) \<noteq> []
   \<and> accepted (fst (on_event
        \<lparr> args_steps = Some [StepString ''A''], respond = True, render_status = ''executing'' \<rparr>
        \<lparr> localSteps = [\<lparr> description = ''A'', status = Enabled \<rparr>], accepted = None \<rparr>
        ClickConfirm)) = Some True
   \<and> fst (resolve_calls (AWAITING_INPUT (0::nat)) [''x'', ''y'', ''z''])
       = [None, Some AlreadyResolved, Some AlreadyResolved]"
  using single_flight_suspension
    [of "0::nat" "''x''" "[''y'', ''z'']" 
      "\<lparr> localSteps = [\<lparr> description = ''A'', status = Enabled \<rparr>], accepted = Some True \<rparr>"
      "[(\<lparr> args_steps = Some [StepString ''A''], respond = True, render_status = ''executing'' \<rparr>,
          ClickConfirm),
         (\<lparr> args_steps = Some [StepString ''A''], respond = True, render_status = ''executing'' \<rparr>,
          ClickReject)]"
      mount
      "\<lparr> args_steps = Some [StepString ''A''], respond = True, render_status = ''executing'' \<rparr>"
      "\<lparr> localSteps = [\<lparr> description = ''A'', status = Enabled \<rparr>], accepted = None \<rparr>"
      ClickConfirm "[]" "[]" "0::nat"]
  by (simp add: buttons_active_def rendered_def sf_handleConfirm_def)

text \<open>
  Claim C4 (suspension round trip). The controller threads the resolution value through
  unchanged: after the agent's suspension request, \<open>resolve v\<close> succeeds and the
  resumption hands exactly \<open>v\<close> to the next run as the result of the suspended
  operation, and a second resolution is rejected. For the payload \<^verbatim>\<open>{steps:["A","B"]}\<close>
  and \<^verbatim>\<open>resolve("A")\<close> the next run receives the literal \<^verbatim>\<open>"A"\<close>. The value this
  repository's client passes for that payload, with step B deselected, is the sentence
  built by \<^verbatim>\<open>handlePerformSteps\<close>.
\<close>

theorem suspension_round_trip:
  "suspend payload (IDLE :: ('p, 'v) controller) = Some (AWAITING_INPUT payload)
   \<and> resolve v (AWAITING_INPUT payload) = Inr (RESUMING v)
   \<and> resume (RESUMING v :: ('p, 'v) controller) = Some (v, IDLE)
   \<and> resolve w (RESUMING v :: ('p, 'v) controller) = Inl AlreadyResolved
   \<and> suspend (JObj [(''steps'', JArr [JStr ''A'', JStr ''B''])]) (IDLE :: (json, string) controller)
       = Some (AWAITING_INPUT (JObj [(''steps'', JArr [JStr ''A'', JStr ''B''])]))
   \<and> resolve ''A'' (AWAITING_INPUT (JObj [(''steps'', JArr [JStr ''A'', JStr ''B''])]))
       = Inr (RESUMING ''A'')
   \<and> resume (RESUMING ''A'' :: (json, string) controller) = Some (''A'', IDLE)
   \<and> fst (resolve_calls (AWAITING_INPUT (JObj [(''steps'', JArr [JStr ''A'', JStr ''B''])]))
        [''A'', u]) = [None, Some AlreadyResolved]
   \<and> interrupt_run (initialSteps (Some [StepString ''A'', StepString ''B'']))
        [Toggle 1, PerformSteps] = [''The user selected the following steps: A'']"
  by (simp add: initialSteps_def to_step_def toggle_at_def toggle_def enumerate_eq_zip
        handlePerformSteps_def enabled_steps_def)

text \<open>
  Claim C9 (confirm returns exactly the enabled steps). With a \<^verbatim>\<open>respond\<close> callback,
  confirming responds \<^verbatim>\<open>{accepted: true, steps: S}\<close> where \<open>S\<close> is the local steps
  filtered by \<^verbatim>\<open>status === "enabled"\<close>: a subsequence of the local steps (original
  order) holding exactly the enabled ones; rejecting responds \<^verbatim>\<open>{accepted: false}\<close>
  with no steps. These are the handlers the two buttons fire, and whenever the buttons
  are active the steps shown are the local steps.
\<close>

theorem confirm_returns_enabled_steps:
  assumes "respond props"
  shows "sf_handleConfirm props st =
           (st\<lparr> accepted := Some True \<rparr>,
            [\<lparr> r_accepted = True,
               r_steps = Some (filter (\<lambda>step. status step = Enabled) (localSteps st)) \<rparr>])
       \<and> sf_handleReject props st =
           (st\<lparr> accepted := Some False \<rparr>, [\<lparr> r_accepted = False, r_steps = None \<rparr>])
       \<and> subseq (enabled_steps (localSteps st)) (localSteps st)
       \<and> (\<forall>x. x \<in> set (enabled_steps (localSteps st))
                \<longleftrightarrow> x \<in> set (localSteps st) \<and> status x = Enabled)
       \<and> (buttons_active props st \<longrightarrow>
             on_event props st ClickConfirm = sf_handleConfirm props st
           \<and> on_event props st ClickReject = sf_handleReject props st)
       \<and> (buttons_active props (sync_effect props st) \<longrightarrow>
             shown_steps props (sync_effect props st) = localSteps (sync_effect props st))"
proof -
  have "buttons_active props (sync_effect props st) \<longrightarrow>
          shown_steps props (sync_effect props st) = localSteps (sync_effect props st)"
    by (auto simp: buttons_active_def rendered_def sync_effect_def shown_steps_def
          split: option.splits)
  moreover have "subseq (enabled_steps (localSteps st)) (localSteps st)"
    by (simp add: enabled_steps_def)
  ultimately show ?thesis
    using assms by (auto simp: sf_handleConfirm_def sf_handleReject_def enabled_steps_def)
qed

theorem confirm_returns_enabled_steps_witness:
  "respond \<lparr> args_steps = Some [StepString ''A'', StepObject (Some ''B'') (Some Disabled), StepString ''C''],
             respond = True, render_status = ''executing'' \<rparr>
   \<and> buttons_active
        \<lparr> args_steps = Some [StepString ''A'', StepObject (Some ''B'') (Some Disabled), StepString ''C''],
          respond = True, render_status = ''executing'' \<rparr>
        (sync_effect
          \<lparr> args_steps = Some [StepString ''A'', StepObject (Some ''B'') (Some Disabled), StepString ''C''],
            respond = True, render_status = ''executing'' \<rparr> mount)
   \<and> snd (on_event
        \<lparr> args_steps = Some [StepString ''A'', StepObject (Some ''B'') (Some Disabled), StepString ''C''],
          respond = True, render_status = ''executing'' \<rparr>
        (sync_effect
          \<lparr> args_steps = Some [StepString ''A'', StepObject (Some ''B'') (Some Disabled), StepString ''C''],
            respond = True, render_status = ''executing'' \<rparr> mount)
        ClickConfirm)
       = [\<lparr> r_accepted = True,
            r_steps = Some [\<lparr> description = ''A'', status = Enabled \<rparr>,
                            \<lparr> description = ''C'', status = Enabled \<rparr>] \<rparr>]"
  using confirm_returns_enabled_steps
    [of "\<lparr> args_steps = Some [StepString ''A'', StepObject (Some ''B'') (Some Disabled), StepString ''C''],
           respond = True, render_status = ''executing'' \<rparr>"
        "sync_effect
          \<lparr> args_steps = Some [StepString ''A'', StepObject (Some ''B'') (Some Disabled), StepString ''C''],
            respond = True, render_status = ''executing'' \<rparr> mount"]
  by (simp add: buttons_active_def rendered_def sync_effect_def mount_def to_step_def)

section \<open>Properties of the state reconciler\<close>

text \<open>
  Claim C6 (plan sync via snapshot then delta). A delta merges field by field: a field
  the patch names takes the patch's value whole, an array included, whatever was there
  before; a field it does not name keeps its value. For a view with no field under
  local edit, the snapshot \<^verbatim>\<open>{project_name: "Redesign", tasks: []}\<close> followed by the
  delta \<^verbatim>\<open>{tasks: [{id: "t1", priority: "High"}]}\<close> leaves exactly
  \<^verbatim>\<open>project_name: "Redesign"\<close> and \<^verbatim>\<open>tasks: [{id: "t1", priority: "High"}]\<close>.
\<close>

theorem plan_sync:
  "doc (applyDelta patch v) k = (case patch k of Some x \<Rightarrow> Some x | None \<Rightarrow> doc v k)
   \<and> doc (applyDelta (patch(k \<mapsto> JArr new)) v) k = Some (JArr new)
   \<and> (edited v = {} \<longrightarrow>
        doc (applyDelta
               [''tasks'' \<mapsto> JArr [JObj [(''id'', JStr ''t1''), (''priority'', JStr ''High'')]]]
               (applySnapshot [''project_name'' \<mapsto> JStr ''Redesign'', ''tasks'' \<mapsto> JArr []] v))
        = [''project_name'' \<mapsto> JStr ''Redesign'',
           ''tasks'' \<mapsto> JArr [JObj [(''id'', JStr ''t1''), (''priority'', JStr ''High'')]]])"
  by (auto simp: applyDelta_def applySnapshot_def map_add_def fun_eq_iff split: option.splits)

theorem plan_sync_witness:
  "edited \<lparr> doc = [''project_name'' \<mapsto> JStr ''Old'', ''notes'' \<mapsto> JNull],
            edited = {}, dirty = False \<rparr> = {}
   \<and> doc (applyDelta
             [''tasks'' \<mapsto> JArr [JObj [(''id'', JStr ''t1''), (''priority'', JStr ''High'')]]]
             (applySnapshot [''project_name'' \<mapsto> JStr ''Redesign'', ''tasks'' \<mapsto> JArr []]
                \<lparr> doc = [''project_name'' \<mapsto> JStr ''Old'', ''notes'' \<mapsto> JNull],
                  edited = {}, dirty = False \<rparr>))
       = [''project_name'' \<mapsto> JStr ''Redesign'',
          ''tasks'' \<mapsto> JArr [JObj [(''id'', JStr ''t1''), (''priority'', JStr ''High'')]]]"
  using plan_sync
    [of Map.empty
        "\<lparr> doc = [''project_name'' \<mapsto> JStr ''Old'', ''notes'' \<mapsto> JNull],
           edited = {}, dirty = False \<rparr>"]
  by simp

text \<open>
  Claim C7 (snapshot idempotence). Applying the same snapshot twice in a row gives the
  view that applying it once gives, for every snapshot and every view.
\<close>

theorem snapshot_idempotent:
  "applySnapshot s (applySnapshot s v) = applySnapshot s v"
  by (simp add: applySnapshot_def fun_eq_iff)

section \<open>Properties of the task plan\<close>

text \<open>
  Claim C5 (local edit frame). \<^verbatim>\<open>handleTaskUpdate\<close> keeps the length of the task list,
  puts the edited task at every position whose task has its id and leaves every other
  position as it was; where the ids of the plan are distinct that is the one position of
  the edited task. It sets \<^verbatim>\<open>last_updated\<close> to the time of the call and leaves
  \<^verbatim>\<open>project_name\<close>, \<^verbatim>\<open>project_description\<close>, \<^verbatim>\<open>current_phase\<close>, both filters and
  \<^verbatim>\<open>planning_complete\<close> unchanged.
\<close>

theorem local_edit_frame:
  "length (tasks (handleTaskUpdate now u prev)) = length (tasks prev)
   \<and> (\<forall>j < length (tasks prev).
         tasks (handleTaskUpdate now u prev) ! j
           = (if t_id (tasks prev ! j) = t_id u then u else tasks prev ! j))
   \<and> (distinct (map t_id (tasks prev)) \<and> i < length (tasks prev) \<and> t_id (tasks prev ! i) = t_id u
        \<longrightarrow> tasks (handleTaskUpdate now u prev) = (tasks prev)[i := u])
   \<and> last_updated (handleTaskUpdate now u prev) = now
   \<and> project_name (handleTaskUpdate now u prev) = project_name prev
   \<and> project_description (handleTaskUpdate now u prev) = project_description prev
   \<and> current_phase (handleTaskUpdate now u prev) = current_phase prev
   \<and> selected_priority_filter (handleTaskUpdate now u prev) = selected_priority_filter prev
   \<and> selected_phase_filter (handleTaskUpdate now u prev) = selected_phase_filter prev
   \<and> planning_complete (handleTaskUpdate now u prev) = planning_complete prev"
proof -
  have "tasks (handleTaskUpdate now u prev) = (tasks prev)[i := u]"
    if d: "distinct (map t_id (tasks prev))" and i: "i < length (tasks prev)"
      and e: "t_id (tasks prev ! i) = t_id u"
  proof (rule nth_equalityI)
    show "length (tasks (handleTaskUpdate now u prev)) = length ((tasks prev)[i := u])"
      by (simp add: handleTaskUpdate_def)
  next
    fix j assume "j < length (tasks (handleTaskUpdate now u prev))"
    then have j: "j < length (tasks prev)"
      by (simp add: handleTaskUpdate_def)
    show "tasks (handleTaskUpdate now u prev) ! j = (tasks prev)[i := u] ! j"
    proof (cases "j = i")
      case True
      with i e show ?thesis by (simp add: handleTaskUpdate_def)
    next
      case False
      have "map t_id (tasks prev) ! j \<noteq> map t_id (tasks prev) ! i"
        using d i j False nth_eq_iff_index_eq [of "map t_id (tasks prev)" j i] by simp
      with i j e have "t_id (tasks prev ! j) \<noteq> t_id u" by simp
      with j False show ?thesis by (simp add: handleTaskUpdate_def)
    qed
  qed
  then show ?thesis by (simp add: handleTaskUpdate_def)
qed

theorem local_edit_frame_witness:
  "distinct (map t_id
     [\<lparr> t_id = ''t1'', title = ''Design'', t_description = '''', complexity = Simple,
        priority = Low, phase = Planning, categories = [Design], subtasks = [],
        dependencies = [], estimated_hours = 2, t_notes = '''' \<rparr>,
      \<lparr> t_id = ''t2'', title = ''Build'', t_description = '''', complexity = Complex,
        priority = Medium, phase = Development, categories = [Coding], subtasks = [],
        dependencies = [''t1''], estimated_hours = 8, t_notes = '''' \<rparr>])
   \<and> tasks (handleTaskUpdate ''2025-01-01T00:00:00.000Z''
        \<lparr> t_id = ''t2'', title = ''Build'', t_description = '''', complexity = Complex,
          priority = High, phase = Development, categories = [Coding], subtasks = [],
          dependencies = [''t1''], estimated_hours = 8, t_notes = '''' \<rparr>
        \<lparr> project_name = ''Redesign'', project_description = '''', current_phase = Planning,
          tasks =
            [\<lparr> t_id = ''t1'', title = ''Design'', t_description = '''', complexity = Simple,
               priority = Low, phase = Planning, categories = [Design], subtasks = [],
               dependencies = [], estimated_hours = 2, t_notes = '''' \<rparr>,
             \<lparr> t_id = ''t2'', title = ''Build'', t_description = '''', complexity = Complex,
               priority = Medium, phase = Development, categories = [Coding], subtasks = [],
               dependencies = [''t1''], estimated_hours = 8, t_notes = '''' \<rparr>],
          selected_priority_filter = None, selected_phase_filter = None,
          last_updated = '''', planning_complete = False \<rparr>)
     = [\<lparr> t_id = ''t1'', title = ''Design'', t_description = '''', complexity = Simple,
          priority = Low, phase = Planning, categories = [Design], subtasks = [],
          dependencies = [], estimated_hours = 2, t_notes = '''' \<rparr>,
        \<lparr> t_id = ''t2'', title = ''Build'', t_description = '''', complexity = Complex,
          priority = High, phase = Development, categories = [Coding], subtasks = [],
          dependencies = [''t1''], estimated_hours = 8, t_notes = '''' \<rparr>]"
  using local_edit_frame
    [of "''2025-01-01T00:00:00.000Z''"
        "\<lparr> t_id = ''t2'', title = ''Build'', t_description = '''', complexity = Complex,
          priority = High, phase = Development, categories = [Coding], subtasks = [],
          dependencies = [''t1''], estimated_hours = 8, t_notes = '''' \<rparr>"
        "\<lparr> project_name = ''Redesign'', project_description = '''', current_phase = Planning,
          tasks =
            [\<lparr> t_id = ''t1'', title = ''Design'', t_description = '''', complexity = Simple,
               priority = Low, phase = Planning, categories = [Design], subtasks = [],
               dependencies = [], estimated_hours = 2, t_notes = '''' \<rparr>,
             \<lparr> t_id = ''t2'', title = ''Build'', t_description = '''', complexity = Complex,
               priority = Medium, phase = Development, categories = [Coding], subtasks = [],
               dependencies = [''t1''], estimated_hours = 8, t_notes = '''' \<rparr>],
          selected_priority_filter = None, selected_phase_filter = None,
          last_updated = '''', planning_complete = False \<rparr>"
        "1"]
  by simp

section \<open>Properties of the health probe\<close>

text \<open>
  Claim C8 (health probe). The health handler answers every request, whatever it
  carries, with status 200 and the JSON object
  \<^verbatim>\<open>{status: "ok", service: "copilotkit-runtime"}\<close>; a GET request on the health path
  is served by it; and the \<^verbatim>\<open>status\<close> field of that object is \<^verbatim>\<open>"ok"\<close>. No branch
  of the handler raises.
\<close>

theorem health_probe:
  "health req
     = Json 200 (JObj [(''status'', JStr ''ok''), (''service'', JStr ''copilotkit-runtime'')])
   \<and> (rq_method req = GET \<and> rq_path req = ''/health'' \<longrightarrow>
        serve req
          = Json 200 (JObj [(''status'', JStr ''ok''), (''service'', JStr ''copilotkit-runtime'')])
        \<and> (\<exists>code body. serve req = Json code body \<and> field body ''status'' = Some (JStr ''ok'')))"
  by (simp add: health_def serve_def)

theorem health_probe_witness:
  "rq_method \<lparr> rq_method = GET, rq_path = ''/health'' \<rparr> = GET
   \<and> rq_path \<lparr> rq_method = GET, rq_path = ''/health'' \<rparr> = ''/health''
   \<and> serve \<lparr> rq_method = GET, rq_path = ''/health'' \<rparr>
       = Json 200 (JObj [(''status'', JStr ''ok''), (''service'', JStr ''copilotkit-runtime'')])"
  using health_probe [of "\<lparr> rq_method = GET, rq_path = ''/health'' \<rparr>"]
  by simp

section \<open>Properties of the progress bar\<close>

text \<open>\<open>ilog2\<close> is the binary exponent: \<open>2 powi ilog2 x \<le> x < 2 powi (ilog2 x + 1)\<close>.\<close>

lemma ilog2_ge1:
  assumes "1 \<le> x"
  shows "2 powi ilog2 x \<le> x" and "x < 2 powi (ilog2 x + 1)"
proof -
  let ?n = "\<lfloor>x\<rfloor>"
  from assms have n: "0 < ?n" by simp
  from bitlen_bounds [OF n] have lo: "2 ^ nat (bitlen ?n - 1) \<le> ?n" and hi: "?n < 2 ^ nat (bitlen ?n)"
    by simp_all
  from n have b1: "1 \<le> bitlen ?n" using bitlen_eq_zero_iff [of ?n] bitlen_nonneg [of ?n] by linarith
  have e: "ilog2 x = bitlen ?n - 1" using assms by (simp add: ilog2_def)
  have "(2::rat) powi ilog2 x = 2 ^ nat (bitlen ?n - 1)"
    using b1 by (simp add: e power_int_def)
  also have "\<dots> = of_int (2 ^ nat (bitlen ?n - 1))" by simp
  also have "\<dots> \<le> of_int ?n" using lo by (simp only: of_int_le_iff)
  also have "\<dots> \<le> x" by simp
  finally show "2 powi ilog2 x \<le> x" .
  have "x < of_int (?n + 1)" by linarith
  also have "\<dots> \<le> of_int (2 ^ nat (bitlen ?n))" using hi by (simp only: of_int_le_iff)
  also have "\<dots> = (2::rat) powi (ilog2 x + 1)"
    using b1 by (simp add: e power_int_def)
  finally show "x < 2 powi (ilog2 x + 1)" .
qed

lemma ilog2_lt1:
  assumes "0 < x" "x < 1"
  shows "2 powi ilog2 x \<le> x" and "x < 2 powi (ilog2 x + 1)"
proof -
  let ?y = "1 / x"
  let ?m = "\<lceil>?y\<rceil> - 1"
  from assms have y1: "1 < ?y" by simp
  then have m: "0 < ?m" by linarith
  from bitlen_bounds [OF m] have lo: "2 ^ nat (bitlen ?m - 1) \<le> ?m" and hi: "?m < 2 ^ nat (bitlen ?m)"
    by simp_all
  from m have b1: "1 \<le> bitlen ?m" using bitlen_eq_zero_iff [of ?m] bitlen_nonneg [of ?m] by linarith
  have e: "ilog2 x = - bitlen ?m" using assms by (simp add: ilog2_def)
  have "?y \<le> of_int (?m + 1)" by simp
  also have "\<dots> \<le> of_int (2 ^ nat (bitlen ?m))" using hi by (simp only: of_int_le_iff)
  also have "\<dots> = (2::rat) ^ nat (bitlen ?m)" by simp
  finally have "1 / x \<le> 2 ^ nat (bitlen ?m)" .
  then have "1 / 2 ^ nat (bitlen ?m) \<le> x"
    using assms(1) by (simp add: field_simps)
  moreover have "(2::rat) powi ilog2 x = 1 / 2 ^ nat (bitlen ?m)"
    using b1 by (simp add: e power_int_def field_simps)
  ultimately show "2 powi ilog2 x \<le> x" by simp
  have "(2::rat) ^ nat (bitlen ?m - 1) = of_int (2 ^ nat (bitlen ?m - 1))" by simp
  also have "\<dots> \<le> of_int ?m" using lo by (simp only: of_int_le_iff)
  also have "\<dots> < ?y" by linarith
  finally have "2 ^ nat (bitlen ?m - 1) < 1 / x" .
  then have "x < 1 / 2 ^ nat (bitlen ?m - 1)"
    using assms(1) by (simp add: field_simps)
  moreover have "(2::rat) powi (ilog2 x + 1) = 1 / 2 ^ nat (bitlen ?m - 1)"
    using b1 by (simp add: e power_int_def field_simps nat_diff_distrib)
  ultimately show "x < 2 powi (ilog2 x + 1)" by simp
qed

lemma ilog2_bounds:
  assumes "0 < x"
  shows "2 powi ilog2 x \<le> x \<and> x < 2 powi (ilog2 x + 1)"
  using assms ilog2_ge1 [of x] ilog2_lt1 [of x] by (cases "1 \<le> x") auto

lemma rne_error: "\<bar>of_int (rne q) - q\<bar> \<le> 1 / 2"
  unfolding rne_def Let_def by (auto simp: abs_if) linarith+

lemma rne_of_int: "rne (of_int n) = n"
  by (simp add: rne_def)

lemma rne_bounds: "\<lfloor>q\<rfloor> \<le> rne q \<and> rne q \<le> \<lfloor>q\<rfloor> + 1"
  by (simp add: rne_def Let_def)

lemma rne_mono:
  assumes "a \<le> b"
  shows "rne a \<le> rne b"
proof (cases "\<lfloor>a\<rfloor> = \<lfloor>b\<rfloor>")
  case True
  with assms show ?thesis
    by (auto simp: rne_def Let_def)
next
  case False
  with assms have "\<lfloor>a\<rfloor> + 1 \<le> \<lfloor>b\<rfloor>"
    using floor_mono [of a b] by linarith
  with rne_bounds [of a] rne_bounds [of b] show ?thesis by linarith
qed


lemma ulp_pos: "0 < ulp x"
  by (simp add: ulp_def)

lemma ulp_le: "0 < x \<Longrightarrow> ulp x \<le> x / 2 ^ 52"
proof -
  assume x: "0 < x"
  have "ulp x = 2 powi ilog2 x / 2 ^ 52"
    using x by (simp add: ulp_def power_int_diff)
  also have "\<dots> \<le> x / 2 ^ 52"
    using ilog2_bounds [OF x] by (simp add: divide_right_mono)
  finally show ?thesis .
qed

text \<open>
  The rounded value is a significand of 53 bits times the unit in the last place, and it
  is within half a unit, so within \<open>x / 2 ^ 53\<close>, of \<open>x\<close>.
\<close>

lemma fl_significand:
  assumes x: "0 < x"
  shows "fl x = of_int (rne (x / ulp x)) * ulp x
         \<and> 2 ^ 52 \<le> rne (x / ulp x) \<and> rne (x / ulp x) \<le> 2 ^ 53"
proof -
  define m where "m = x / 2 powi ilog2 x"
  have p: "(0::rat) < 2 powi ilog2 x" by simp
  have "2 powi ilog2 x \<le> x" and "x < 2 powi (ilog2 x + 1)"
    using ilog2_bounds [OF x] by simp_all
  then have "2 powi ilog2 x * 1 \<le> x" and "x < 2 powi ilog2 x * 2"
    by (simp_all add: power_int_add)
  then have m: "1 \<le> m" "m \<le> 2"
    using p unfolding m_def by (simp_all add: field_simps)
  have u: "ulp x = 2 powi ilog2 x / 2 ^ 52"
    using x by (simp add: ulp_def power_int_diff)
  have "x / (2 powi ilog2 x / 2 ^ 52) = x / 2 powi ilog2 x * 2 ^ 52"
    by simp
  then have q: "x / ulp x = m * 2 ^ 52"
    by (simp only: u m_def)
  have "1 * (2::rat) ^ 52 \<le> m * 2 ^ 52" and "m * (2::rat) ^ 52 \<le> 2 * 2 ^ 52"
    using m by (intro mult_right_mono; simp)+
  then have lo: "of_int (2 ^ 52) \<le> x / ulp x" and hi: "x / ulp x \<le> of_int (2 ^ 53)"
    by (simp_all only: q) simp_all
  from rne_mono [OF lo] rne_mono [OF hi]
  have "2 ^ 52 \<le> rne (x / ulp x)" and "rne (x / ulp x) \<le> 2 ^ 53"
    by (simp_all only: rne_of_int)
  then show ?thesis using x by (simp add: fl_def)
qed

text \<open>A value with a 53-bit significand is left as it is.\<close>

lemma ilog2_unique:
  assumes x: "0 < x" and lo: "2 powi e \<le> x" and hi: "x < 2 powi (e + 1)"
  shows "ilog2 x = e"
proof (rule antisym)
  show "ilog2 x \<le> e"
  proof (rule ccontr)
    assume "\<not> ilog2 x \<le> e"
    then have "e + 1 \<le> ilog2 x" by simp
    then have "(2::rat) powi (e + 1) \<le> 2 powi ilog2 x"
      by (intro power_int_increasing) simp_all
    also have "\<dots> \<le> x" using ilog2_bounds [OF x] by simp
    finally show False using hi by simp
  qed
  show "e \<le> ilog2 x"
  proof (rule ccontr)
    assume "\<not> e \<le> ilog2 x"
    then have "ilog2 x + 1 \<le> e" by simp
    then have "(2::rat) powi (ilog2 x + 1) \<le> 2 powi e"
      by (intro power_int_increasing) simp_all
    also have "\<dots> \<le> x" by (rule lo)
    finally show False using ilog2_bounds [OF x] by simp
  qed
qed

lemma fl_exact:
  assumes m: "2 ^ 52 \<le> m" "m < 2 ^ 53"
  shows "fl (of_int m * 2 powi k) = of_int m * 2 powi k"
proof -
  let ?x = "of_int m * 2 powi k :: rat"
  have m0: "(0::rat) < of_int m" using m(1) by simp
  then have x: "0 < ?x" by simp
  have "(of_int (2 ^ 52) :: rat) \<le> of_int m" using m(1) by (simp only: of_int_le_iff)
  then have "(2::rat) powi 52 * 2 powi k \<le> ?x"
    by (intro mult_right_mono) simp_all
  then have lo: "2 powi (k + 52) \<le> ?x"
    by (simp add: power_int_add mult.commute)
  have "(of_int m :: rat) < of_int (2 ^ 53)" using m(2) by (simp only: of_int_less_iff)
  then have "?x < (2::rat) powi 53 * 2 powi k"
    by (intro mult_strict_right_mono) simp_all
  then have hi: "?x < 2 powi (k + 52 + 1)"
    by (simp add: power_int_add mult.commute)
  have e: "ilog2 ?x = k + 52" by (rule ilog2_unique [OF x lo hi])
  have u: "ulp ?x = 2 powi k" using x by (simp add: ulp_def e)
  have "?x / ulp ?x = of_int m" by (simp add: u)
  then have "rne (?x / ulp ?x) = m" by (simp only: rne_of_int)
  then show ?thesis using x by (simp add: fl_def u)
qed

lemma fl_error:
  assumes "0 \<le> x"
  shows "\<bar>fl x - x\<bar> \<le> x / 2 ^ 53"
proof (cases "x = 0")
  case True
  then show ?thesis by (simp add: fl_def)
next
  case False
  with assms have x: "0 < x" by simp
  let ?u = "ulp x"
  have u: "0 < ?u" by (rule ulp_pos)
  have "fl x - x = (of_int (rne (x / ?u)) - x / ?u) * ?u"
    using False u by (simp add: fl_def field_simps)
  then have "\<bar>fl x - x\<bar> = \<bar>of_int (rne (x / ?u)) - x / ?u\<bar> * ?u"
    using u by (simp add: abs_mult)
  also have "\<dots> \<le> (1 / 2) * ?u"
    using rne_error [of "x / ?u"] u by (intro mult_right_mono) simp_all
  also have "\<dots> \<le> (1 / 2) * (x / 2 ^ 52)"
    using ulp_le [OF x] by simp
  also have "\<dots> = x / 2 ^ 53" by simp
  finally show ?thesis .
qed

lemma fl_nonneg:
  assumes "0 \<le> x"
  shows "0 \<le> fl x"
proof (cases "x = 0")
  case True
  then show ?thesis by (simp add: fl_def)
next
  case False
  have "0 \<le> x / ulp x" using assms ulp_pos [of x] by simp
  then have "rne 0 \<le> rne (x / ulp x)" by (rule rne_mono)
  then have "0 \<le> rne (x / ulp x)" using rne_of_int [of 0] by simp
  then show ?thesis using False ulp_pos [of x] by (simp add: fl_def)
qed

lemma fl_le_nat:
  assumes x: "0 < x" and le: "x \<le> of_nat B" and B: "B < 2 ^ 53"
  shows "fl x \<le> of_nat B"
proof -
  let ?e = "ilog2 x"
  have "(2::rat) powi ?e \<le> x" using ilog2_bounds [OF x] by simp
  also have "\<dots> \<le> of_nat B" by (rule le)
  also have "\<dots> < of_nat (2 ^ 53)" using B by (simp only: of_nat_less_iff)
  also have "\<dots> = (2::rat) powi 53" by simp
  finally have "(2::rat) powi ?e < 2 powi 53" .
  then have e: "?e < 53"
    by (rule power_int_le_imp_less_exp [rotated]) simp_all
  define k where "k = nat (52 - ?e)"
  have u: "ulp x = 1 / 2 ^ k"
    using e x by (simp add: ulp_def k_def power_int_def field_simps)
  have "x / ulp x \<le> of_nat B / ulp x"
    using le ulp_pos [of x] by (simp add: divide_right_mono)
  also have "of_nat B / ulp x = of_int (int B * 2 ^ k)"
    by (simp add: u)
  finally have "rne (x / ulp x) \<le> rne (of_int (int B * 2 ^ k))"
    by (rule rne_mono)
  then have "rne (x / ulp x) \<le> int B * 2 ^ k"
    by (simp only: rne_of_int)
  then have "(of_int (rne (x / ulp x)) :: rat) \<le> of_int (int B * 2 ^ k)"
    by (simp only: of_int_le_iff)
  then have "of_int (rne (x / ulp x)) * ulp x \<le> of_int (int B * 2 ^ k) * ulp x"
    using ulp_pos [of x] by (simp add: mult_right_mono)
  also have "of_int (int B * 2 ^ k) * ulp x = of_nat B"
    by (simp add: u)
  finally show ?thesis using x by (simp add: fl_def)
qed


lemma percentage_value:
  "0 < t \<Longrightarrow> percentage (of_nat c) (of_nat t)
     = Some (Math_round (fl (fl (of_nat c / of_nat t) * 100)))"
  by (simp add: percentage_def js_div_def js_mul_def)

lemma quotient_range:
  assumes "c \<le> t" "0 < t"
  shows "0 \<le> fl (of_nat c / of_nat t)" and "fl (of_nat c / of_nat t) \<le> 1"
proof -
  let ?q = "of_nat c / of_nat t :: rat"
  have q0: "0 \<le> ?q" by simp
  then show "0 \<le> fl ?q" by (rule fl_nonneg)
  have q1: "?q \<le> of_nat 1" using assms by simp
  show "fl ?q \<le> 1"
  proof (cases "?q = 0")
    case True
    then show ?thesis by (simp add: fl_def)
  next
    case False
    with q0 have "0 < ?q" by simp
    from fl_le_nat [OF this q1] show ?thesis by simp
  qed
qed

lemma product_range:
  assumes "c \<le> t" "0 < t"
  shows "0 \<le> fl (fl (of_nat c / of_nat t) * 100)"
    and "fl (fl (of_nat c / of_nat t) * 100) \<le> 100"
proof -
  let ?w = "fl (of_nat c / of_nat t) * 100"
  have w0: "0 \<le> ?w" using quotient_range(1) [OF assms] by simp
  then show "0 \<le> fl ?w" by (rule fl_nonneg)
  have w1: "?w \<le> of_nat 100" using quotient_range(2) [OF assms] by simp
  show "fl ?w \<le> 100"
  proof (cases "?w = 0")
    case True
    then show ?thesis by (simp add: fl_def)
  next
    case False
    with w0 have "0 < ?w" by simp
    from fl_le_nat [OF this w1] show ?thesis by simp
  qed
qed

lemma percentage_range:
  assumes "c \<le> t" "0 < t"
  shows "\<exists>p. percentage (of_nat c) (of_nat t) = Some p \<and> 0 \<le> p \<and> p \<le> 100"
proof -
  let ?y = "fl (fl (of_nat c / of_nat t) * 100)"
  from product_range [OF assms] have "0 \<le> ?y" "?y \<le> 100" by simp_all
  then have "0 \<le> Math_round ?y \<and> Math_round ?y \<le> 100"
    unfolding Math_round_def by (simp add: le_floor_iff floor_le_iff) 
  then show ?thesis using assms(2) by (simp add: percentage_value)
qed

lemma product_error:
  assumes "c \<le> t" "0 < t"
  shows "\<bar>fl (fl (of_nat c / of_nat t) * 100) - 100 * of_nat c / of_nat t\<bar> < 1 / 2 ^ 45"
proof -
  let ?r = "of_nat c / of_nat t :: rat"
  let ?q = "fl ?r"
  let ?w = "?q * 100"
  let ?y = "fl ?w"
  have r0: "0 \<le> ?r" and r1: "?r \<le> 1" using assms by simp_all
  have e1: "\<bar>?q - ?r\<bar> \<le> ?r / 2 ^ 53" using fl_error [OF r0] .
  have w0: "0 \<le> ?w" using quotient_range(1) [OF assms] by simp
  have w1: "?w \<le> 100" using quotient_range(2) [OF assms] by simp
  have e2: "\<bar>?y - ?w\<bar> \<le> ?w / 2 ^ 53" using fl_error [OF w0] .
  have "?y - 100 * ?r = (?y - ?w) + 100 * (?q - ?r)"
    by (simp add: algebra_simps)
  then have "\<bar>?y - 100 * ?r\<bar> \<le> \<bar>?y - ?w\<bar> + \<bar>100 * (?q - ?r)\<bar>"
    using abs_triangle_ineq [of "?y - ?w" "100 * (?q - ?r)"] by simp
  also have "\<bar>100 * (?q - ?r)\<bar> = 100 * \<bar>?q - ?r\<bar>"
    by (simp only: abs_mult abs_numeral)
  also have "\<bar>?y - ?w\<bar> + 100 * \<bar>?q - ?r\<bar> \<le> ?w / 2 ^ 53 + 100 * (?r / 2 ^ 53)"
    using e2 mult_left_mono [OF e1, of 100] by (intro add_mono) simp_all
  also have "\<dots> \<le> 100 / 2 ^ 53 + 100 * (1 / 2 ^ 53)"
    using w1 r1 by (intro add_mono) (simp_all add: divide_right_mono)
  also have "\<dots> < 1 / 2 ^ 45" by simp
  finally show ?thesis by simp
qed


lemma percentage_within_one:
  assumes "c \<le> t" "0 < t"
  shows "\<exists>p. percentage (of_nat c) (of_nat t) = Some p \<and> \<bar>p - claimed_percentage c t\<bar> \<le> 1"
proof -
  let ?y = "fl (fl (of_nat c / of_nat t) * 100)"
  let ?z = "100 * of_nat c / of_nat t :: rat"
  have "\<bar>?y - ?z\<bar> < 1 / 2 ^ 45" by (rule product_error [OF assms])
  also have "\<dots> < (1::rat)" by simp
  finally have "\<bar>?y - ?z\<bar> < 1" .
  then have "\<bar>\<lfloor>?y + 1 / 2\<rfloor> - \<lfloor>?z + 1 / 2\<rfloor>\<bar> \<le> 1" by linarith
  then show ?thesis
    using assms(2) by (simp add: percentage_value Math_round_def claimed_percentage_def)
qed

lemma half_split:
  assumes "0 < t"
  shows "(100 * of_nat c / of_nat t :: rat) + 1 / 2
           = of_nat ((200 * c + t) div (2 * t)) + of_nat ((200 * c + t) mod (2 * t)) / of_nat (2 * t)"
proof -
  have "(of_nat (200 * c + t) :: rat)
          = of_nat ((200 * c + t) div (2 * t) * (2 * t) + (200 * c + t) mod (2 * t))"
    by (simp only: div_mult_mod_eq)
  then have "(of_nat (200 * c + t) :: rat) / of_nat (2 * t)
          = of_nat ((200 * c + t) div (2 * t)) + of_nat ((200 * c + t) mod (2 * t)) / of_nat (2 * t)"
    using assms by (simp add: field_simps)
  moreover have "(100 * of_nat c / of_nat t :: rat) + 1 / 2 = of_nat (200 * c + t) / of_nat (2 * t)"
    using assms by (simp add: field_simps)
  ultimately show ?thesis by simp
qed

lemma percentage_exact_off_ties:
  assumes "c \<le> t" "0 < t" "t < 2 ^ 44" "(200 * c) mod (2 * t) \<noteq> t"
  shows "percentage (of_nat c) (of_nat t) = Some (claimed_percentage c t)"
proof -
  let ?y = "fl (fl (of_nat c / of_nat t) * 100)"
  let ?z = "100 * of_nat c / of_nat t :: rat"
  define k where "k = (200 * c + t) div (2 * t)"
  define r where "r = (200 * c + t) mod (2 * t)"
  have z: "?z + 1 / 2 = of_nat k + of_nat r / of_nat (2 * t)"
    unfolding k_def r_def by (rule half_split [OF assms(2)])
  have "r \<noteq> 0"
  proof
    assume "r = 0"
    then have "(200 * c + t) mod (2 * t) = 0" by (simp add: r_def)
    then have "(200 * c mod (2 * t) + t) mod (2 * t) = 0"
      by (simp add: mod_add_left_eq)
    then obtain q where q: "200 * c mod (2 * t) + t = 2 * t * q"
      by (auto simp: mod_eq_0_iff_dvd)
    have m: "200 * c mod (2 * t) < 2 * t" using assms(2) by simp
    have "q = 1"
    proof (cases q)
      case 0
      with q assms(2) show ?thesis by simp
    next
      case (Suc q')
      show ?thesis
      proof (cases q')
        case 0
        with Suc show ?thesis by simp
      next
        case (Suc q'')
        with \<open>q = Suc q'\<close> have "4 * t \<le> 2 * t * q" by simp
        with q m show ?thesis by linarith
      qed
    qed
    with q have "200 * c mod (2 * t) = t" by simp
    with assms(4) show False by simp
  qed
  then have r1: "1 \<le> r" by simp
  have r2: "r + 1 \<le> 2 * t" using assms(2) by (simp add: r_def Suc_leI)
  have d: "(1::rat) / 2 ^ 45 < 1 / of_nat (2 * t)"
  proof -
    have "2 * t < 2 ^ 45" using assms(3) by simp
    then have "(of_nat (2 * t) :: rat) < of_nat (2 ^ 45)" by (simp only: of_nat_less_iff)
    then have "(of_nat (2 * t) :: rat) < 2 ^ 45" by simp
    then show ?thesis using assms(2) by (simp add: field_simps)
  qed
  have lo: "of_nat k + 1 / of_nat (2 * t) \<le> ?z + 1 / 2"
  proof -
    have "(1::rat) \<le> of_nat r" using r1 by simp
    then have "(1::rat) / of_nat (2 * t) \<le> of_nat r / of_nat (2 * t)"
      by (intro divide_right_mono) simp_all
    then show ?thesis by (simp only: z add_left_mono)
  qed
  have hi: "?z + 1 / 2 \<le> of_nat k + 1 - 1 / of_nat (2 * t)"
  proof -
    have "(of_nat (r + 1) :: rat) \<le> of_nat (2 * t)"
      using r2 by (simp only: of_nat_le_iff)
    then have "(of_nat r :: rat) + 1 \<le> of_nat (2 * t)" by simp
    then have "(of_nat r :: rat) \<le> of_nat (2 * t) - 1" by simp
    then have "(of_nat r :: rat) / of_nat (2 * t) \<le> (of_nat (2 * t) - 1) / of_nat (2 * t)"
      by (intro divide_right_mono) simp_all
    also have "\<dots> = 1 - 1 / of_nat (2 * t)"
      using assms(2) by (simp add: diff_divide_distrib)
    finally have "of_nat k + (of_nat r :: rat) / of_nat (2 * t)
        \<le> of_nat k + (1 - 1 / of_nat (2 * t))"
      by (rule add_left_mono)
    then show ?thesis by (simp only: z)
  qed
  have e: "\<bar>?y - ?z\<bar> < 1 / of_nat (2 * t)"
    using product_error [OF assms(1,2)] d by linarith
  have "of_nat k < ?y + 1 / 2" "?y + 1 / 2 < of_nat k + 1"
    using lo hi e by linarith+
  then have "\<lfloor>?y + 1 / 2\<rfloor> = int k"
    by (simp add: floor_eq_iff)
  moreover have "\<lfloor>?z + 1 / 2\<rfloor> = int k"
  proof -
    have "0 < (1::rat) / of_nat (2 * t)" using assms(2) by simp
    with lo hi have "of_nat k \<le> ?z + 1 / 2" "?z + 1 / 2 < of_nat k + 1" by linarith+
    then show ?thesis by (simp add: floor_eq_iff)
  qed
  ultimately show ?thesis
    using assms(2) by (simp add: percentage_value Math_round_def claimed_percentage_def)
qed

text \<open>
  Claim C10 as stated fails: at 23 of 40 the exact value is 57.5 and rounds to 58, while
  the double nearest to 23/40 lies below it, its product with 100 rounds to the double
  just below 57.5, and \<^verbatim>\<open>Math.round\<close> gives 57.
\<close>

theorem percentage_tie_counterexample:
  "percentage 23 40 = Some 57
   \<and> claimed_percentage 23 40 = 58
   \<and> percentage 23 40 \<noteq> Some (claimed_percentage 23 40)"
  by code_simp

text \<open>
  Claim C10, amended. For counts \<open>c \<le> t\<close>: with a total of 0 the percentage is 0 and
  no division is made; with a positive total the division has a non-zero divisor and
  the percentage is \<^verbatim>\<open>Math.round\<close> of the double-precision product
  \<^verbatim>\<open>(completed / total) * 100\<close>. It always is a number from 0 to 100. It differs from
  the exactly rounded \<open>round(100 * completed / total)\<close> by at most 1, and equals it
  (for totals below \<open>2 ^ 44\<close>) unless \<open>100 * completed / total\<close> is exactly halfway
  between two integers, that is unless \<open>200 * c mod (2 * t) = t\<close>.
\<close>

theorem progress_percentage:
  "percentage (of_nat c) 0 = Some 0
   \<and> (0 < t \<longrightarrow>
        js_div (of_nat c) (of_nat t) = Some (fl (of_nat c / of_nat t))
        \<and> percentage (of_nat c) (of_nat t)
            = Some (Math_round (fl (fl (of_nat c / of_nat t) * 100))))
   \<and> (c \<le> t \<longrightarrow>
        (\<exists>p. percentage (of_nat c) (of_nat t) = Some p \<and> 0 \<le> p \<and> p \<le> 100))
   \<and> (c \<le> t \<and> 0 < t \<longrightarrow>
        (\<exists>p. percentage (of_nat c) (of_nat t) = Some p \<and> \<bar>p - claimed_percentage c t\<bar> \<le> 1))
   \<and> (c \<le> t \<and> 0 < t \<and> t < 2 ^ 44 \<and> (200 * c) mod (2 * t) \<noteq> t \<longrightarrow>
        percentage (of_nat c) (of_nat t) = Some (claimed_percentage c t))"
proof -
  have zero: "percentage (of_nat c) 0 = Some 0"
    by (simp add: percentage_def)
  have "\<exists>p. percentage (of_nat c) (of_nat t) = Some p \<and> 0 \<le> p \<and> p \<le> 100" if "c \<le> t"
  proof (cases "0 < t")
    case True
    with that show ?thesis by (rule percentage_range)
  next
    case False
    then show ?thesis using zero by simp
  qed
  then show ?thesis
    using zero percentage_value [of t c] percentage_within_one [of c t]
      percentage_exact_off_ties [of c t]
    by (simp add: js_div_def)
qed

theorem progress_percentage_witness:
  "((1::nat) \<le> 3 \<and> (0::nat) < 3 \<and> (3::nat) < 2 ^ 44 \<and> (200 * 1) mod (2 * 3) \<noteq> (3::nat))
   \<and> percentage (of_nat 1) (of_nat 3) = Some (claimed_percentage 1 3)
   \<and> claimed_percentage 1 3 = 33"
proof -
  have c: "claimed_percentage 1 3 = 33"
    by code_simp
  have h: "(1::nat) \<le> 3 \<and> (0::nat) < 3 \<and> (3::nat) < 2 ^ 44 \<and> (200 * 1) mod (2 * 3) \<noteq> (3::nat)"
    by simp
  with progress_percentage [of 1 3]
  have "percentage (of_nat 1) (of_nat 3) = Some (claimed_percentage 1 3)"
    by blast
  with h c show ?thesis by blast
qed

end
